theory Spec2Isabelle
  imports Complex_Main "HOL-Library.AList"
begin

section \<open>Traffic manager: time-leased locks on vertices and directed edges\<close>

text \<open>
  Embedding of \<^verbatim>\<open>controllers/traffic_manager.py\<close>. Vertex and robot identifiers are
  Python integers. Timestamps are the values of \<^verbatim>\<open>time.time()\<close>; they are only
  subtracted and compared, and are modelled as real numbers. Every operation that reads
  the clock reads it once, at its first line, so the clock value is a parameter
  \<open>current_time\<close> of the operation.
\<close>

type_synonym vertex = int
type_synonym robot_id = int

text \<open>
  The three dictionaries of \<^verbatim>\<open>TrafficManager.__init__\<close> and the constant
  \<^verbatim>\<open>lock_duration\<close>. \<^verbatim>\<open>waiting_queues\<close> is a \<^verbatim>\<open>defaultdict(list)\<close>: a key is
  absent until it is indexed for the first time, and \<^verbatim>\<open>release_path\<close> tests for
  the presence of the key, so absence and the empty list are kept apart.
\<close>

record traffic_manager =
  vertex_locks :: "vertex \<rightharpoonup> robot_id \<times> real"
  edge_locks :: "vertex \<times> vertex \<rightharpoonup> robot_id \<times> real"
  waiting_queues :: "vertex \<rightharpoonup> robot_id list"
  lock_duration :: real

definition TrafficManager_init :: traffic_manager where
  "TrafficManager_init =
     \<lparr>vertex_locks = Map.empty, edge_locks = Map.empty,
      waiting_queues = Map.empty, lock_duration = 5\<rparr>"

text \<open>
  The test made on a lock entry in \<^verbatim>\<open>request_path\<close> (lines 46-48 and 57-59):
  the entry blocks when it exists, belongs to another robot and is younger than
  \<^verbatim>\<open>lock_duration\<close>. The result is the blocking robot.
\<close>

definition lock_blocks ::
  "(robot_id \<times> real) option \<Rightarrow> robot_id \<Rightarrow> real \<Rightarrow> real \<Rightarrow> robot_id option" where
  "lock_blocks lk rid current_time dur =
     (case lk of
        None \<Rightarrow> None
      | Some (lock_robot, lock_time) \<Rightarrow>
          if lock_robot \<noteq> rid \<and> current_time - lock_time < dur
          then Some lock_robot else None)"

text \<open>
  Lines 50-52 and 60-62: \<^verbatim>\<open>self.waiting_queues[current_vertex]\<close> creates the key with
  an empty list when it is absent; the robot is appended unless it is already there.
\<close>

definition add_waiting :: "traffic_manager \<Rightarrow> vertex \<Rightarrow> robot_id \<Rightarrow> traffic_manager" where
  "add_waiting tm v rid =
     (let q = (case waiting_queues tm v of None \<Rightarrow> [] | Some q \<Rightarrow> q)
      in tm\<lparr>waiting_queues :=
              (waiting_queues tm)(v \<mapsto> (if rid \<notin> set q then q @ [rid] else q))\<rparr>)"

text \<open>
  The first loop of \<^verbatim>\<open>request_path\<close> over \<^verbatim>\<open>range(len(path) - 1)\<close>, that is over
  the consecutive pairs of the path. It returns \<open>Some (tm', lock_robot)\<close> when the
  loop leaves through one of its two \<^verbatim>\<open>return False, lock_robot\<close>, and \<open>None\<close> when
  it runs to its end.
\<close>

fun request_scan ::
  "traffic_manager \<Rightarrow> robot_id \<Rightarrow> real \<Rightarrow> vertex list \<Rightarrow> (traffic_manager \<times> robot_id) option" where
  "request_scan tm rid current_time (current_vertex # next_vertex # rest) =
     (case lock_blocks (vertex_locks tm current_vertex) rid current_time (lock_duration tm) of
        Some lock_robot \<Rightarrow> Some (add_waiting tm current_vertex rid, lock_robot)
      | None \<Rightarrow>
          (case lock_blocks (edge_locks tm (current_vertex, next_vertex)) rid current_time
                  (lock_duration tm) of
             Some lock_robot \<Rightarrow> Some (add_waiting tm current_vertex rid, lock_robot)
           | None \<Rightarrow> request_scan tm rid current_time (next_vertex # rest)))"
| "request_scan tm rid current_time [v] = None"
| "request_scan tm rid current_time [] = None"

text \<open>The second loop of \<^verbatim>\<open>request_path\<close> (lines 66-70): the reservations.\<close>

fun make_reservations ::
  "traffic_manager \<Rightarrow> robot_id \<Rightarrow> real \<Rightarrow> vertex list \<Rightarrow> traffic_manager" where
  "make_reservations tm rid current_time (current_vertex # next_vertex # rest) =
     make_reservations
       (tm\<lparr>vertex_locks := (vertex_locks tm)(current_vertex \<mapsto> (rid, current_time)),
           edge_locks := (edge_locks tm)((current_vertex, next_vertex) \<mapsto> (rid, current_time))\<rparr>)
       rid current_time (next_vertex # rest)"
| "make_reservations tm rid current_time [v] = tm"
| "make_reservations tm rid current_time [] = tm"

definition request_path ::
  "traffic_manager \<Rightarrow> robot_id \<Rightarrow> real \<Rightarrow> vertex list
     \<Rightarrow> traffic_manager \<times> (bool \<times> robot_id option)" where
  "request_path tm rid current_time path =
     (case request_scan tm rid current_time path of
        Some (tm', lock_robot) \<Rightarrow> (tm', (False, Some lock_robot))
      | None \<Rightarrow> (make_reservations tm rid current_time path, (True, None)))"

text \<open>
  \<^verbatim>\<open>release_path\<close>. The vertex lock goes when the robot holds it; every edge lock of
  the robot goes; the waiting list of the vertex is returned and replaced by the empty
  list when the key is present. When the key is absent the function runs off its end
  and returns Python's \<^verbatim>\<open>None\<close>: the result is an option.
\<close>

definition release_path ::
  "traffic_manager \<Rightarrow> robot_id \<Rightarrow> vertex \<Rightarrow> traffic_manager \<times> robot_id list option" where
  "release_path tm rid vertex_id =
     (let vl = (case vertex_locks tm vertex_id of
                  Some (lock_robot, lock_time) \<Rightarrow>
                    if lock_robot = rid then (vertex_locks tm)(vertex_id := None)
                    else vertex_locks tm
                | None \<Rightarrow> vertex_locks tm);
          el = (\<lambda>edge. case edge_locks tm edge of
                  Some (lock_robot, lock_time) \<Rightarrow>
                    if lock_robot = rid then None else Some (lock_robot, lock_time)
                | None \<Rightarrow> None);
          tm1 = tm\<lparr>vertex_locks := vl, edge_locks := el\<rparr>
      in case waiting_queues tm vertex_id of
           Some waiting_robots \<Rightarrow>
             (tm1\<lparr>waiting_queues := (waiting_queues tm)(vertex_id \<mapsto> [])\<rparr>,
              Some waiting_robots)
         | None \<Rightarrow> (tm1, None))"

definition get_waiting_robots :: "traffic_manager \<Rightarrow> vertex \<Rightarrow> robot_id list" where
  "get_waiting_robots tm vertex_id =
     (case waiting_queues tm vertex_id of Some q \<Rightarrow> q | None \<Rightarrow> [])"


section \<open>Robot: the movement state machine\<close>

text \<open>
  Embedding of \<^verbatim>\<open>src/models/robot.py\<close>. Coordinates, the progress along an edge and the
  speed are Python floats that are added, multiplied and compared; they are modelled as
  real numbers. The fields \<^verbatim>\<open>color\<close>, \<^verbatim>\<open>size\<close>, \<^verbatim>\<open>waiting_time\<close>,
  \<^verbatim>\<open>task_start_time\<close> and \<^verbatim>\<open>last_vertex\<close> are set by the constructor and never read
  or written by the methods modelled here; they are left out. \<^verbatim>\<open>last_retry_time\<close> is an
  attribute that the fleet manager adds to the object on the first retry and tests with
  \<^verbatim>\<open>hasattr\<close>: it is an optional field.
\<close>

datatype RobotStatus = IDLE | MOVING | WAITING | TASK_COMPLETE | BLOCKED

datatype py_error = TypeError | NoTargetVertex

record robot =
  robot_id :: robot_id
  current_vertex :: vertex
  target_vertex :: "vertex option"
  status :: RobotStatus
  path :: "vertex list"
  current_edge_index :: nat
  current_x :: real
  current_y :: real
  next_x :: real
  next_y :: real
  move_progress :: real
  move_speed :: real
  blocked_by :: "robot_id option"
  last_retry_time :: "real option"

definition Robot_init :: "robot_id \<Rightarrow> vertex \<Rightarrow> robot" where
  "Robot_init rid spawn_vertex =
     \<lparr>robot_id = rid, current_vertex = spawn_vertex, target_vertex = None, status = IDLE,
      path = [], current_edge_index = 0, current_x = 0, current_y = 0, next_x = 0,
      next_y = 0, move_progress = 0, move_speed = 5 / 100, blocked_by = None,
      last_retry_time = None\<rparr>"

definition start_task :: "robot \<Rightarrow> vertex \<Rightarrow> vertex list \<Rightarrow> real \<times> real \<Rightarrow> robot" where
  "start_task r target p start_pos =
     (let r1 = r\<lparr>target_vertex := Some target, path := p, current_edge_index := 0,
                 status := MOVING, current_x := fst start_pos, current_y := snd start_pos,
                 move_progress := 0\<rparr>
      in if length p > 1 then r1\<lparr>next_x := fst start_pos, next_y := snd start_pos\<rparr> else r1)"

definition set_blocked :: "robot \<Rightarrow> robot_id option \<Rightarrow> robot" where
  "set_blocked r blocking_robot_id = r\<lparr>status := BLOCKED, blocked_by := blocking_robot_id\<rparr>"

definition set_waiting :: "robot \<Rightarrow> robot" where
  "set_waiting r = r\<lparr>status := WAITING\<rparr>"

definition smooth_step :: "real \<Rightarrow> real" where
  "smooth_step x0 = (let x = max 0 (min 1 x0) in x * x * (3 - 2 * x))"

definition lerp :: "real \<Rightarrow> real \<Rightarrow> real \<Rightarrow> real" where
  "lerp start finish t0 = (let t = max 0 (min 1 t0) in start + (finish - start) * t)"

text \<open>
  \<^verbatim>\<open>update_position(delta_time, get_vertex_pos)\<close>. The position lookup belongs to the
  navigation graph, which is outside the analysed sources; it is a parameter defined on
  vertex identifiers. \<^verbatim>\<open>target_vertex\<close> is optional in the source; the branch that
  finishes the task looks the target up, and a robot that is moving without a target
  (which \<^verbatim>\<open>start_task\<close> never produces) gets the failure value \<open>NoTargetVertex\<close> there.
  The indexing \<^verbatim>\<open>self.path[i]\<close> and \<^verbatim>\<open>self.path[i + 1]\<close> happens only below the test
  \<^verbatim>\<open>current_edge_index >= len(self.path) - 1\<close>, hence in range.
\<close>

definition update_position ::
  "robot \<Rightarrow> real \<Rightarrow> (vertex \<Rightarrow> real \<times> real) \<Rightarrow> py_error + robot" where
  "update_position r delta_time get_vertex_pos =
     (if status r \<noteq> MOVING \<or> path r = [] then Inr r
      else if current_edge_index r \<ge> length (path r) - 1 then
        (case target_vertex r of
           None \<Rightarrow> Inl NoTargetVertex
         | Some tv \<Rightarrow>
             (let final_pos = get_vertex_pos tv
              in Inr (r\<lparr>current_x := fst final_pos, current_y := snd final_pos,
                        status := TASK_COMPLETE, current_vertex := tv\<rparr>)))
      else
        (let cv = path r ! current_edge_index r;
             nv = path r ! (current_edge_index r + 1);
             current_pos = get_vertex_pos cv;
             next_pos = get_vertex_pos nv;
             progress = move_progress r + move_speed r * delta_time
         in if progress \<ge> 1 then
              (let i = current_edge_index r + 1;
                   r1 = r\<lparr>current_edge_index := i, move_progress := 0, current_vertex := nv\<rparr>;
                   current_pos' = (if i < length (path r) - 1 then get_vertex_pos (path r ! i)
                                   else current_pos);
                   next_pos' = (if i < length (path r) - 1 then get_vertex_pos (path r ! (i + 1))
                                else next_pos);
                   t = smooth_step 0
               in Inr (r1\<lparr>current_x := lerp (fst current_pos') (fst next_pos') t,
                          current_y := lerp (snd current_pos') (snd next_pos') t\<rparr>))
            else
              (let t = smooth_step progress
               in Inr (r\<lparr>move_progress := progress,
                         current_x := lerp (fst current_pos) (fst next_pos) t,
                         current_y := lerp (snd current_pos) (snd next_pos) t\<rparr>))))"

text \<open>Repeated calls of \<^verbatim>\<open>update_position\<close>, one per element of a list of time steps.\<close>

fun update_positions ::
  "robot \<Rightarrow> real list \<Rightarrow> (vertex \<Rightarrow> real \<times> real) \<Rightarrow> py_error + robot" where
  "update_positions r [] get_vertex_pos = Inr r"
| "update_positions r (delta_time # ds) get_vertex_pos =
     (case update_position r delta_time get_vertex_pos of
        Inl e \<Rightarrow> Inl e
      | Inr r' \<Rightarrow> update_positions r' ds get_vertex_pos)"

section \<open>Fleet manager\<close>

text \<open>
  Embedding of \<^verbatim>\<open>controllers/fleet_manager.py\<close>. The navigation graph
  (\<^verbatim>\<open>src.models.nav_graph.NavGraph\<close>) is not among the analysed sources: its vertex
  table, its shortest-path query and its position lookup are the three fields of a
  record that the fleet manager carries. Of a vertex entry \<^verbatim>\<open>(x, y, attrs)\<close> only the
  coordinates are read. The shortest-path query may answer \<^verbatim>\<open>None\<close> or an empty list;
  \<^verbatim>\<open>assign_task\<close> treats both alike (\<^verbatim>\<open>if not path\<close>).

  \<^verbatim>\<open>robots\<close> is a dictionary that is iterated in insertion order, so it is an
  association list; a robot object mutated in place is written back under its key.
  \<^verbatim>\<open>active_tasks\<close> is never used and left out. \<^verbatim>\<open>last_update\<close> is read with
  \<^verbatim>\<open>getattr(self, 'last_update', current_time)\<close>: an optional field.
\<close>

record nav_graph =
  vertices :: "vertex \<rightharpoonup> real \<times> real"
  get_shortest_path :: "vertex \<Rightarrow> vertex \<Rightarrow> vertex list option"
  get_vertex_position :: "vertex \<Rightarrow> real \<times> real"

record fleet_manager =
  nav_graph :: nav_graph
  robots :: "(robot_id \<times> robot) list"
  traffic_manager :: traffic_manager
  next_robot_id :: int
  last_update :: "real option"

definition FleetManager_init :: "nav_graph \<Rightarrow> fleet_manager" where
  "FleetManager_init g =
     \<lparr>nav_graph = g, robots = [], traffic_manager = TrafficManager_init,
      next_robot_id = 1, last_update = None\<rparr>"

definition spawn_robot :: "fleet_manager \<Rightarrow> vertex \<Rightarrow> fleet_manager \<times> robot option" where
  "spawn_robot fm vertex_id =
     (case vertices (nav_graph fm) vertex_id of
        None \<Rightarrow> (fm, None)
      | Some (x, y) \<Rightarrow>
          (let r = (Robot_init (next_robot_id fm) vertex_id)\<lparr>current_x := x, current_y := y\<rparr>
           in (fm\<lparr>robots := AList.update (next_robot_id fm) r (robots fm),
                  next_robot_id := next_robot_id fm + 1\<rparr>,
               Some r)))"

text \<open>
  \<^verbatim>\<open>assign_task\<close>. The parameter \<open>request_time\<close> is the clock value that
  \<^verbatim>\<open>request_path\<close> reads when it is called from here.
\<close>

definition assign_task ::
  "fleet_manager \<Rightarrow> robot_id \<Rightarrow> vertex \<Rightarrow> real \<Rightarrow> fleet_manager \<times> bool" where
  "assign_task fm rid target request_time =
     (case map_of (robots fm) rid of
        None \<Rightarrow> (fm, False)
      | Some r \<Rightarrow>
          if status r \<noteq> IDLE \<and> status r \<noteq> TASK_COMPLETE then (fm, False)
          else
            (case get_shortest_path (nav_graph fm) (current_vertex r) target of
               None \<Rightarrow> (fm, False)
             | Some p \<Rightarrow>
                 if p = [] then (fm, False)
                 else
                   (case request_path (traffic_manager fm) rid request_time p of
                      (tm', can_move, blocking_robot) \<Rightarrow>
                        if \<not> can_move then
                          (fm\<lparr>traffic_manager := tm',
                              robots := AList.update rid (set_blocked r blocking_robot) (robots fm)\<rparr>,
                           False)
                        else
                          (let start_pos = get_vertex_position (nav_graph fm) (current_vertex r)
                           in (fm\<lparr>traffic_manager := tm',
                                  robots := AList.update rid (start_task r target p start_pos)
                                              (robots fm)\<rparr>,
                               True)))))"




text \<open>
  Line 95 of \<^verbatim>\<open>cancel_task\<close> calls \<^verbatim>\<open>self.traffic_manager.release_path(robot_id)\<close>, while
  \<^verbatim>\<open>release_path(self, robot_id, vertex_id)\<close> has two required parameters. Python raises
  \<^verbatim>\<open>TypeError\<close> when it binds the arguments, before the body of \<^verbatim>\<open>release_path\<close> runs.
\<close>

definition release_path_without_vertex ::
  "traffic_manager \<Rightarrow> robot_id \<Rightarrow> py_error + traffic_manager \<times> robot_id list option" where
  "release_path_without_vertex tm rid = Inl TypeError"

text \<open>Lines 96-98 of \<^verbatim>\<open>cancel_task\<close>: the three assignments after the release.\<close>

definition cancel_reset :: "robot \<Rightarrow> robot" where
  "cancel_reset r = r\<lparr>status := IDLE, target_vertex := None, path := []\<rparr>"

definition cancel_task ::
  "fleet_manager \<Rightarrow> robot_id \<Rightarrow> (py_error \<times> fleet_manager) + (fleet_manager \<times> bool)" where
  "cancel_task fm rid =
     (case map_of (robots fm) rid of
        None \<Rightarrow> Inr (fm, False)
      | Some r \<Rightarrow>
          if status r = MOVING \<or> status r = WAITING then
            (case release_path_without_vertex (traffic_manager fm) rid of
               Inl e \<Rightarrow> Inl (e, fm)
             | Inr (tm', waiting_robots) \<Rightarrow>
                 Inr (fm\<lparr>traffic_manager := tm',
                         robots := AList.update rid (cancel_reset r) (robots fm)\<rparr>,
                      True))
          else Inr (fm, False))"

section \<open>Notions of the specification\<close>

text \<open>
  The elements a request looks at, in the order of its scan: for each consecutive pair
  \<open>(v, w)\<close> of the path the vertex \<open>v\<close>, then the directed edge \<open>(v, w)\<close>. The last
  vertex of a path is not among them.
\<close>

datatype element = Vertex vertex | Edge vertex vertex

fun path_elements :: "vertex list \<Rightarrow> element list" where
  "path_elements (v # w # rest) = Vertex v # Edge v w # path_elements (w # rest)"
| "path_elements [v] = []"
| "path_elements [] = []"

text \<open>The table entry of an element, and the vertex whose waiting list a denial at the
  element writes to (for an edge, its source vertex).\<close>

fun lock_of :: "traffic_manager \<Rightarrow> element \<Rightarrow> (robot_id \<times> real) option" where
  "lock_of tm (Vertex v) = vertex_locks tm v"
| "lock_of tm (Edge v w) = edge_locks tm (v, w)"

fun entry_vertex :: "element \<Rightarrow> vertex" where
  "entry_vertex (Vertex v) = v"
| "entry_vertex (Edge v w) = v"

text \<open>
  A live reservation against robot \<open>rid\<close> at time \<open>t\<close>: an entry held by another robot
  whose age is below the lease duration.
\<close>

definition live_for :: "traffic_manager \<Rightarrow> robot_id \<Rightarrow> real \<Rightarrow> element \<Rightarrow> bool" where
  "live_for tm rid t e =
     (case lock_of tm e of
        None \<Rightarrow> False
      | Some (holder, grant_time) \<Rightarrow> holder \<noteq> rid \<and> t - grant_time < lock_duration tm)"

text \<open>The states of the traffic manager that its two mutating operations can produce.\<close>

inductive reachable :: "traffic_manager \<Rightarrow> bool" where
  init: "reachable TrafficManager_init"
| request: "reachable tm \<Longrightarrow> reachable (fst (request_path tm rid t p))"
| release: "reachable tm \<Longrightarrow> reachable (fst (release_path tm rid v))"

text \<open>Robot \<open>a\<close> holds an unexpired reservation of element \<open>e\<close> at time \<open>t\<close>.\<close>

definition reserved_at :: "traffic_manager \<Rightarrow> element \<Rightarrow> robot_id \<Rightarrow> real \<Rightarrow> bool" where
  "reserved_at tm e a t =
     (case lock_of tm e of
        None \<Rightarrow> False
      | Some (holder, grant_time) \<Rightarrow> holder = a \<and> t - grant_time < lock_duration tm)"

text \<open>No waiting list names a robot twice.\<close>

definition queues_distinct :: "traffic_manager \<Rightarrow> bool" where
  "queues_distinct tm = (\<forall>v q. waiting_queues tm v = Some q \<longrightarrow> distinct q)"

text \<open>Example states, built by the operations themselves.\<close>

definition tm_one_grant :: traffic_manager where
  "tm_one_grant = fst (request_path TrafficManager_init 1 0 [1, 2, 3])"

definition tm_two_holders :: traffic_manager where
  "tm_two_holders =
     fst (request_path (fst (request_path TrafficManager_init 7 0 [1, 10])) 8 0 [2, 20])"

definition tm_with_waiter :: traffic_manager where
  "tm_with_waiter = fst (request_path tm_two_holders 9 1 [3, 2, 4])"

text \<open>
  The invariant of an agent as the specification words it: the path is non-empty and the
  cursor is a valid index exactly when the robot is moving, and the target is set exactly
  when the robot is moving, blocked or waiting.
\<close>

definition claimed_invariant :: "robot \<Rightarrow> bool" where
  "claimed_invariant r =
     (((path r \<noteq> [] \<and> current_edge_index r < length (path r)) \<longleftrightarrow> status r = MOVING) \<and>
      ((target_vertex r \<noteq> None) \<longleftrightarrow>
         (status r = MOVING \<or> status r = BLOCKED \<or> status r = WAITING)))"

text \<open>
  The part of it that the methods maintain: a moving robot has a non-empty path, a cursor
  inside it and a target; a robot that completed its task keeps its path and target; an
  idle robot has neither. Nothing is said of a blocked robot.
\<close>

definition robot_invariant :: "robot \<Rightarrow> bool" where
  "robot_invariant r =
     ((status r = MOVING \<longrightarrow>
         path r \<noteq> [] \<and> current_edge_index r < length (path r) \<and> target_vertex r \<noteq> None) \<and>
      (status r = TASK_COMPLETE \<longrightarrow> path r \<noteq> [] \<and> target_vertex r \<noteq> None) \<and>
      (status r = IDLE \<longrightarrow> path r = [] \<and> target_vertex r = None))"

text \<open>
  The states of one robot that the operations on it produce: the constructor followed by
  the two coordinate assignments of \<^verbatim>\<open>spawn_robot\<close>; \<^verbatim>\<open>start_task\<close> with a non-empty path
  (\<^verbatim>\<open>assign_task\<close> returns before it when the path is empty); \<^verbatim>\<open>update_position\<close>;
  \<^verbatim>\<open>set_blocked\<close>; the assignments of \<^verbatim>\<open>cancel_task\<close>; and the retry stamp that
  \<^verbatim>\<open>update_robots\<close> puts on a blocked robot.
\<close>

inductive reachable_robot :: "(vertex \<Rightarrow> real \<times> real) \<Rightarrow> robot \<Rightarrow> bool"
  for get_vertex_pos :: "vertex \<Rightarrow> real \<times> real" where
  spawn: "reachable_robot get_vertex_pos ((Robot_init rid v)\<lparr>current_x := x, current_y := y\<rparr>)"
| start: "reachable_robot get_vertex_pos r \<Longrightarrow> p \<noteq> [] \<Longrightarrow>
      reachable_robot get_vertex_pos (start_task r target p start_pos)"
| update: "reachable_robot get_vertex_pos r \<Longrightarrow>
      update_position r delta_time get_vertex_pos = Inr r' \<Longrightarrow>
      reachable_robot get_vertex_pos r'"
| blocked: "reachable_robot get_vertex_pos r \<Longrightarrow>
      reachable_robot get_vertex_pos (set_blocked r blocking_robot_id)"
| cancel: "reachable_robot get_vertex_pos r \<Longrightarrow> status r = MOVING \<or> status r = WAITING \<Longrightarrow>
      reachable_robot get_vertex_pos (cancel_reset r)"
| retry: "reachable_robot get_vertex_pos r \<Longrightarrow> status r = BLOCKED \<Longrightarrow>
      reachable_robot get_vertex_pos (r\<lparr>last_retry_time := Some t\<rparr>)"

text \<open>
  Arrival: the task is complete, the robot stands on its target vertex and its position
  is the position the lookup gives for that vertex.
\<close>

definition arrived :: "(vertex \<Rightarrow> real \<times> real) \<Rightarrow> robot \<Rightarrow> robot \<Rightarrow> bool" where
  "arrived get_vertex_pos r r' =
     (status r' = TASK_COMPLETE \<and> target_vertex r' = target_vertex r \<and>
      Some (current_vertex r') = target_vertex r \<and>
      Some (current_x r', current_y r') = map_option get_vertex_pos (target_vertex r))"

text \<open>
  A bound on the calls a moving robot still needs, for time steps of at least \<open>dmin\<close>:
  \<open>c\<close> is the least progress of one call, \<open>M\<close> a number of calls that covers a whole
  edge, \<open>m\<close> a number of calls that covers the rest of the current edge.
\<close>

definition steps_enough :: "real \<Rightarrow> nat \<Rightarrow> robot \<Rightarrow> nat \<Rightarrow> bool" where
  "steps_enough c M r n =
     (if current_edge_index r \<ge> length (path r) - 1 then 1 \<le> n
      else \<exists>m\<ge>1. 1 - move_progress r \<le> real m * c \<and>
             m + (length (path r) - 2 - current_edge_index r) * M + 1 \<le> n)"

text \<open>The answer "no path" of the shortest-path query: \<^verbatim>\<open>None\<close> or the empty list.\<close>

definition no_path :: "vertex list option \<Rightarrow> bool" where
  "no_path sp = (case sp of None \<Rightarrow> True | Some p \<Rightarrow> p = [])"

text \<open>
  Example fleet: three vertices on a line; two robots spawned at vertex 1; robot 1 is
  assigned vertex 2 at time 0 and is granted the path 1, 2; robot 2 is assigned vertex 2
  at time 1 and is denied, vertex 1 being held by robot 1.
\<close>

definition line_graph :: nav_graph where
  "line_graph =
     \<lparr>vertices = [1 \<mapsto> (0, 0), 2 \<mapsto> (1, 0), 3 \<mapsto> (2, 0)],
      get_shortest_path = (\<lambda>a b.
         if a = 1 \<and> b = 2 then Some [1, 2]
         else if a = 1 \<and> b = 3 then Some [1, 2, 3]
         else if a = 2 \<and> b = 1 then Some [2, 1]
         else None),
      get_vertex_position = (\<lambda>v. (of_int v - 1, 0))\<rparr>"

definition fleet_two_spawned :: fleet_manager where
  "fleet_two_spawned =
     fst (spawn_robot (fst (spawn_robot (FleetManager_init line_graph) 1)) 1)"

definition fleet_one_moving :: fleet_manager where
  "fleet_one_moving = fst (assign_task fleet_two_spawned 1 2 0)"

definition fleet_one_blocked :: fleet_manager where
  "fleet_one_blocked = fst (assign_task fleet_one_moving 2 2 1)"






text \<open>A robot that has just started the path 1, 2.\<close>

definition robot_on_edge :: robot where
  "robot_on_edge = start_task ((Robot_init 1 1)\<lparr>current_x := 0, current_y := 0\<rparr>) 2 [1, 2] (0, 0)"

section \<open>Properties of the traffic manager\<close>

lemma lock_blocks_live:
  "lock_blocks (lock_of tm e) rid t (lock_duration tm) =
     (if live_for tm rid t e then map_option fst (lock_of tm e) else None)"
  by (auto simp: lock_blocks_def live_for_def split: option.splits)

lemma request_scan_find:
  "request_scan tm rid t p =
     (case find (live_for tm rid t) (path_elements p) of
        None \<Rightarrow> None
      | Some e \<Rightarrow> (case lock_of tm e of
           None \<Rightarrow> None
         | Some (holder, grant_time) \<Rightarrow> Some (add_waiting tm (entry_vertex e) rid, holder)))"
proof (induction tm rid t p rule: request_scan.induct)
  case (1 tm rid t v w rest)
  have V: "lock_blocks (vertex_locks tm v) rid t (lock_duration tm) =
     (if live_for tm rid t (Vertex v) then map_option fst (vertex_locks tm v) else None)"
    using lock_blocks_live [of tm "Vertex v" rid t] by simp
  have E: "lock_blocks (edge_locks tm (v, w)) rid t (lock_duration tm) =
     (if live_for tm rid t (Edge v w) then map_option fst (edge_locks tm (v, w)) else None)"
    using lock_blocks_live [of tm "Edge v w" rid t] by simp
  show ?case
  proof (cases "live_for tm rid t (Vertex v)")
    case True
    then show ?thesis using V by (auto simp: live_for_def split: option.splits)
  next
    case nv: False
    show ?thesis
    proof (cases "live_for tm rid t (Edge v w)")
      case True
      then show ?thesis using V E nv by (auto simp: live_for_def split: option.splits)
    next
      case False
      then show ?thesis using V E nv 1 by simp
    qed
  qed
qed simp_all

lemma make_reservations_queues [simp]:
  "waiting_queues (make_reservations tm rid t p) = waiting_queues tm"
  by (induction tm rid t p rule: make_reservations.induct) simp_all

lemma make_reservations_duration [simp]:
  "lock_duration (make_reservations tm rid t p) = lock_duration tm"
  by (induction tm rid t p rule: make_reservations.induct) simp_all

lemma make_reservations_vertex:
  "vertex_locks (make_reservations tm rid t p) v =
     (if v \<in> set (butlast p) then Some (rid, t) else vertex_locks tm v)"
  by (induction tm rid t p rule: make_reservations.induct) auto

lemma make_reservations_edge:
  "edge_locks (make_reservations tm rid t p) e =
     (if e \<in> set (zip p (tl p)) then Some (rid, t) else edge_locks tm e)"
  by (induction tm rid t p rule: make_reservations.induct) auto

lemma path_elements_set:
  "set (path_elements p) = Vertex ` set (butlast p) \<union> (\<lambda>(v, w). Edge v w) ` set (zip p (tl p))"
  by (induction p rule: path_elements.induct) auto

lemma make_reservations_lock_of:
  "lock_of (make_reservations tm rid t p) e =
     (if e \<in> set (path_elements p) then Some (rid, t) else lock_of tm e)"
  by (cases e) (auto simp: make_reservations_vertex make_reservations_edge path_elements_set)

lemma add_waiting_locks [simp]:
  "vertex_locks (add_waiting tm v rid) = vertex_locks tm"
  "edge_locks (add_waiting tm v rid) = edge_locks tm"
  "lock_duration (add_waiting tm v rid) = lock_duration tm"
  by (simp_all add: add_waiting_def Let_def)

lemma add_waiting_lock_of [simp]: "lock_of (add_waiting tm v rid) e = lock_of tm e"
  by (cases e) simp_all

lemma add_waiting_queue:
  "waiting_queues (add_waiting tm v rid) u =
     (if u = v then Some (if rid \<in> set (get_waiting_robots tm v) then get_waiting_robots tm v
                          else get_waiting_robots tm v @ [rid])
      else waiting_queues tm u)"
  by (auto simp: add_waiting_def get_waiting_robots_def Let_def split: option.splits)

lemma request_path_cases:
  "request_path tm rid t p =
     (case find (live_for tm rid t) (path_elements p) of
        None \<Rightarrow> (make_reservations tm rid t p, (True, None))
      | Some e \<Rightarrow> (add_waiting tm (entry_vertex e) rid, (False, map_option fst (lock_of tm e))))"
proof (cases "find (live_for tm rid t) (path_elements p)")
  case None
  then show ?thesis by (simp add: request_path_def request_scan_find)
next
  case (Some e)
  then have "live_for tm rid t e" by (auto simp: find_Some_iff)
  then obtain h g where "lock_of tm e = Some (h, g)"
    by (auto simp: live_for_def split: option.splits)
  with Some show ?thesis by (simp add: request_path_def request_scan_find)
qed

lemma request_path_duration [simp]:
  "lock_duration (fst (request_path tm rid t p)) = lock_duration tm"
  by (simp add: request_path_cases split: option.splits)

lemma release_path_duration [simp]:
  "lock_duration (fst (release_path tm rid v)) = lock_duration tm"
  by (simp add: release_path_def Let_def split: option.splits)

lemma reachable_duration: "reachable tm \<Longrightarrow> lock_duration tm = 5"
  by (induction rule: reachable.induct) (simp_all add: TrafficManager_init_def)

lemma add_waiting_distinct: "queues_distinct tm \<Longrightarrow> queues_distinct (add_waiting tm v rid)"
  unfolding queues_distinct_def
  by (auto simp: add_waiting_queue get_waiting_robots_def split: option.splits if_splits)

lemma request_path_distinct:
  "queues_distinct tm \<Longrightarrow> queues_distinct (fst (request_path tm rid t p))"
  by (auto simp: request_path_cases add_waiting_distinct split: option.splits)
    (simp add: queues_distinct_def)

lemma release_path_distinct:
  "queues_distinct tm \<Longrightarrow> queues_distinct (fst (release_path tm rid v))"
  unfolding queues_distinct_def
  by (auto simp: release_path_def Let_def split: option.splits if_splits)

lemma reachable_distinct: "reachable tm \<Longrightarrow> queues_distinct tm"
proof (induction rule: reachable.induct)
  case init
  show ?case by (simp add: queues_distinct_def TrafficManager_init_def)
next
  case (request tm rid t p)
  then show ?case by (simp add: request_path_distinct)
next
  case (release tm rid v)
  then show ?case by (simp add: release_path_distinct)
qed

text \<open>
  Claim C10. A granted \<^verbatim>\<open>request_path\<close> stamps every vertex (but the last) and every
  edge of the path with the requesting robot and with one and the same time, the clock
  value read once at the start of the call; nothing else in the two tables changes.
\<close>

theorem uniform_lease_timestamp:
  assumes "request_path tm rid t p = (tm', (True, blocker))"
  shows "(\<forall>e \<in> set (path_elements p). lock_of tm' e = Some (rid, t)) \<and>
         (\<forall>e. e \<notin> set (path_elements p) \<longrightarrow> lock_of tm' e = lock_of tm e)"
  using assms
  by (auto simp: request_path_cases make_reservations_lock_of split: option.splits)

lemma tm_one_grant_reachable: "reachable tm_one_grant"
  unfolding tm_one_grant_def by (rule reachable.request [OF reachable.init])

lemma tm_one_grant_eq:
  "tm_one_grant = \<lparr>vertex_locks = [1 \<mapsto> (1, 0), 2 \<mapsto> (1, 0)],
      edge_locks = [(1, 2) \<mapsto> (1, 0), (2, 3) \<mapsto> (1, 0)],
      waiting_queues = Map.empty, lock_duration = 5\<rparr>"
  by (simp add: tm_one_grant_def request_path_def TrafficManager_init_def lock_blocks_def)

theorem uniform_lease_timestamp_witness:
  "request_path TrafficManager_init 1 7 [1, 2, 3] =
     (make_reservations TrafficManager_init 1 7 [1, 2, 3], (True, None)) \<and>
   vertex_locks (make_reservations TrafficManager_init 1 7 [1, 2, 3]) 1 = Some (1, 7) \<and>
   vertex_locks (make_reservations TrafficManager_init 1 7 [1, 2, 3]) 2 = Some (1, 7) \<and>
   edge_locks (make_reservations TrafficManager_init 1 7 [1, 2, 3]) (1, 2) = Some (1, 7) \<and>
   edge_locks (make_reservations TrafficManager_init 1 7 [1, 2, 3]) (2, 3) = Some (1, 7) \<and>
   vertex_locks (make_reservations TrafficManager_init 1 7 [1, 2, 3]) 3 = None"
proof -
  have g: "request_path TrafficManager_init 1 7 [1, 2, 3] =
     (make_reservations TrafficManager_init 1 7 [1, 2, 3], (True, None))"
    by (simp add: request_path_def TrafficManager_init_def lock_blocks_def)
  from uniform_lease_timestamp [OF g] g show ?thesis
    by (simp add: TrafficManager_init_def)
qed

lemma distinct_count_list: "distinct xs \<Longrightarrow> x \<in> set xs \<Longrightarrow> count_list xs x = 1"
  by (induction xs) auto

text \<open>
  Claim C2. From a reachable state, \<^verbatim>\<open>request_path\<close> is decided by the first element in
  scan order that holds a live reservation of another robot. If there is one, the call
  returns \<open>(False, holder)\<close> for that element's holder, both lock tables are unchanged,
  the robot stands exactly once in the waiting list of the element's vertex and the other
  waiting lists are unchanged. If there is none, the call returns \<open>(True, None)\<close> and
  every element of the path \<open>p\<close> carries \<open>(rid, t)\<close>.
\<close>

theorem all_or_nothing_grant:
  assumes "reachable tm" and "request_path tm rid t p = (tm', res)"
  shows "case find (live_for tm rid t) (path_elements p) of
           Some e \<Rightarrow>
             (\<exists>holder grant_time. lock_of tm e = Some (holder, grant_time) \<and>
                 res = (False, Some holder)) \<and>
             vertex_locks tm' = vertex_locks tm \<and> edge_locks tm' = edge_locks tm \<and>
             count_list (get_waiting_robots tm' (entry_vertex e)) rid = 1 \<and>
             (\<forall>v. v \<noteq> entry_vertex e \<longrightarrow> waiting_queues tm' v = waiting_queues tm v)
         | None \<Rightarrow>
             res = (True, None) \<and>
             (\<forall>e \<in> set (path_elements p). lock_of tm' e = Some (rid, t)) \<and>
             waiting_queues tm' = waiting_queues tm"
proof (cases "find (live_for tm rid t) (path_elements p)")
  case None
  with assms(2) show ?thesis
    by (auto simp: request_path_cases make_reservations_lock_of)
next
  case (Some e)
  then have "live_for tm rid t e" by (auto simp: find_Some_iff)
  then obtain h g where hg: "lock_of tm e = Some (h, g)"
    by (auto simp: live_for_def split: option.splits)
  from Some assms(2) have tm': "tm' = add_waiting tm (entry_vertex e) rid"
    and res: "res = (False, Some h)"
    by (auto simp: request_path_cases hg)
  have d: "distinct (get_waiting_robots tm (entry_vertex e))"
    using reachable_distinct [OF assms(1)]
    by (auto simp: queues_distinct_def get_waiting_robots_def split: option.splits)
  have q: "get_waiting_robots tm' (entry_vertex e) =
      (if rid \<in> set (get_waiting_robots tm (entry_vertex e))
       then get_waiting_robots tm (entry_vertex e)
       else get_waiting_robots tm (entry_vertex e) @ [rid])"
    by (simp add: tm' get_waiting_robots_def add_waiting_queue)
  have c: "count_list (get_waiting_robots tm' (entry_vertex e)) rid = 1"
    using d by (auto simp: q distinct_count_list)
  show ?thesis using Some hg res c
    by (auto simp: tm' add_waiting_queue q)
qed

lemma tm_two_holders_reachable: "reachable tm_two_holders"
  unfolding tm_two_holders_def
  by (rule reachable.request [OF reachable.request [OF reachable.init]])

lemma tm_two_holders_eq:
  "tm_two_holders = \<lparr>vertex_locks = [1 \<mapsto> (7, 0), 2 \<mapsto> (8, 0)],
      edge_locks = [(1, 10) \<mapsto> (7, 0), (2, 20) \<mapsto> (8, 0)],
      waiting_queues = Map.empty, lock_duration = 5\<rparr>"
  by (simp add: tm_two_holders_def request_path_def TrafficManager_init_def lock_blocks_def)

theorem all_or_nothing_grant_witness:
  "reachable tm_two_holders \<and>
   request_path tm_two_holders 9 1 [3, 2, 4] = (add_waiting tm_two_holders 2 9, (False, Some 8)) \<and>
   find (live_for tm_two_holders 9 1) (path_elements [3, 2, 4]) = Some (Vertex 2) \<and>
   vertex_locks (add_waiting tm_two_holders 2 9) = vertex_locks tm_two_holders \<and>
   edge_locks (add_waiting tm_two_holders 2 9) = edge_locks tm_two_holders \<and>
   count_list (get_waiting_robots (add_waiting tm_two_holders 2 9) 2) 9 = 1"
proof -
  have r: "request_path tm_two_holders 9 1 [3, 2, 4] =
      (add_waiting tm_two_holders 2 9, (False, Some 8))"
    by (simp add: tm_two_holders_eq request_path_def lock_blocks_def)
  have f: "find (live_for tm_two_holders 9 1) (path_elements [3, 2, 4]) = Some (Vertex 2)"
    by (simp add: tm_two_holders_eq live_for_def)
  from all_or_nothing_grant [OF tm_two_holders_reachable r] f tm_two_holders_reachable r
  show ?thesis by simp
qed

lemma release_path_lock_of:
  "lock_of (fst (release_path tm rid v)) e =
     (case lock_of tm e of
        None \<Rightarrow> None
      | Some (holder, grant_time) \<Rightarrow>
          if holder = rid \<and> (e = Vertex v \<or> (\<exists>a b. e = Edge a b)) then None
          else Some (holder, grant_time))"
  by (cases e) (auto simp: release_path_def Let_def split: option.splits)

text \<open>
  Claim C1. In a reachable state no element is reserved by two distinct robots that are
  both unexpired at the same time; and a reservation of robot \<open>b\<close> that is unexpired at
  time \<open>t\<close> survives, entry and all, every request and every release that another robot
  \<open>a\<close> makes at \<open>t\<close>: it is never handed over while it is live.
\<close>

theorem mutual_exclusion:
  assumes "reachable tm"
  shows "(reserved_at tm e a t \<and> reserved_at tm e b t \<longrightarrow> a = b) \<and>
         (reserved_at tm e b t \<and> b \<noteq> a \<longrightarrow>
            lock_of (fst (request_path tm a t p)) e = lock_of tm e \<and>
            reserved_at (fst (request_path tm a t p)) e b t \<and>
            lock_of (fst (release_path tm a v)) e = lock_of tm e \<and>
            reserved_at (fst (release_path tm a v)) e b t)"
proof -
  have one: "reserved_at tm e a t \<and> reserved_at tm e b t \<longrightarrow> a = b"
    by (auto simp: reserved_at_def split: option.splits)
  have two: "lock_of (fst (request_path tm a t p)) e = lock_of tm e"
    if r: "reserved_at tm e b t" and ne: "b \<noteq> a"
  proof (cases "find (live_for tm a t) (path_elements p)")
    case (Some e')
    then show ?thesis by (simp add: request_path_cases)
  next
    case None
    have "live_for tm a t e"
      using r ne by (auto simp: reserved_at_def live_for_def split: option.splits)
    with None have "e \<notin> set (path_elements p)"
      by (auto simp: find_None_iff)
    with None show ?thesis
      by (simp add: request_path_cases make_reservations_lock_of)
  qed
  have three: "lock_of (fst (release_path tm a v)) e = lock_of tm e"
    if r: "reserved_at tm e b t" and ne: "b \<noteq> a"
    using r ne by (auto simp: release_path_lock_of reserved_at_def split: option.splits)
  show ?thesis
    using one two three by (auto simp: reserved_at_def split: option.splits)
qed

theorem mutual_exclusion_witness:
  "reachable tm_one_grant \<and> reserved_at tm_one_grant (Vertex 2) 1 3 \<and>
   \<not> reserved_at tm_one_grant (Vertex 2) 2 3 \<and>
   lock_of (fst (request_path tm_one_grant 2 3 [4, 2, 5])) (Vertex 2) = Some (1, 0) \<and>
   reserved_at (fst (request_path tm_one_grant 2 3 [4, 2, 5])) (Vertex 2) 1 3 \<and>
   reserved_at (fst (release_path tm_one_grant 2 2)) (Vertex 2) 1 3"
proof -
  have r: "reserved_at tm_one_grant (Vertex 2) 1 3"
    by (simp add: tm_one_grant_eq reserved_at_def)
  have n: "\<not> reserved_at tm_one_grant (Vertex 2) 2 3"
    by (simp add: tm_one_grant_eq reserved_at_def)
  have l: "lock_of tm_one_grant (Vertex 2) = Some (1, 0)"
    by (simp add: tm_one_grant_eq)
  from mutual_exclusion [OF tm_one_grant_reachable, of "Vertex 2" 2 3 1 "[4, 2, 5]" 2]
    r n l tm_one_grant_reachable
  show ?thesis by simp
qed

text \<open>
  Claim C5 says that \<^verbatim>\<open>release_path\<close> returns the waiting-list contents of the vertex,
  an ordered and possibly empty sequence. For a vertex that has no waiting-list key the
  contents are empty, yet the call returns \<^verbatim>\<open>None\<close>, not the empty sequence.
\<close>

theorem release_returns_none_counterexample:
  "get_waiting_robots TrafficManager_init 1 = [] \<and>
   snd (release_path TrafficManager_init 1 1) = None \<and>
   snd (release_path TrafficManager_init 1 1) \<noteq> Some (get_waiting_robots TrafficManager_init 1)"
  by (simp add: release_path_def get_waiting_robots_def TrafficManager_init_def)

text \<open>
  Claim C5, amended. \<^verbatim>\<open>release_path tm rid v\<close> removes the vertex reservation at \<open>v\<close> if
  and only if \<open>rid\<close> holds it; it removes every edge reservation of \<open>rid\<close>, wherever the
  edge lies; reservations of other robots are unchanged; it returns the waiting-list
  entry of \<open>v\<close> as it stands in the table (the list when the key is present, \<^verbatim>\<open>None\<close>
  when it is absent); afterwards the waiting list of \<open>v\<close> is empty and the other
  waiting lists are unchanged.
\<close>

theorem release_postcondition:
  assumes "release_path tm rid v = (tm', ws)"
  shows "((vertex_locks tm v \<noteq> None \<and> vertex_locks tm' v = None) \<longleftrightarrow>
            (\<exists>grant_time. vertex_locks tm v = Some (rid, grant_time))) \<and>
         (\<forall>e. lock_of tm' e =
            (case lock_of tm e of
               None \<Rightarrow> None
             | Some (holder, grant_time) \<Rightarrow>
                 if holder = rid \<and> (e = Vertex v \<or> (\<exists>a b. e = Edge a b)) then None
                 else Some (holder, grant_time))) \<and>
         (\<forall>e holder grant_time. lock_of tm e = Some (holder, grant_time) \<and> holder \<noteq> rid
            \<longrightarrow> lock_of tm' e = Some (holder, grant_time)) \<and>
         ws = waiting_queues tm v \<and>
         get_waiting_robots tm' v = [] \<and>
         (\<forall>u. u \<noteq> v \<longrightarrow> waiting_queues tm' u = waiting_queues tm u)"
proof -
  from assms have tm': "tm' = fst (release_path tm rid v)"
    and ws: "ws = snd (release_path tm rid v)"
    by simp_all
  have locks: "lock_of tm' e =
            (case lock_of tm e of
               None \<Rightarrow> None
             | Some (holder, grant_time) \<Rightarrow>
                 if holder = rid \<and> (e = Vertex v \<or> (\<exists>a b. e = Edge a b)) then None
                 else Some (holder, grant_time))" for e
    unfolding tm' by (rule release_path_lock_of)
  have removed: "(vertex_locks tm v \<noteq> None \<and> vertex_locks tm' v = None) \<longleftrightarrow>
            (\<exists>grant_time. vertex_locks tm v = Some (rid, grant_time))"
    using locks [of "Vertex v"] by (auto split: option.splits if_splits)
  have others: "lock_of tm' e = Some (holder, grant_time)"
    if "lock_of tm e = Some (holder, grant_time)" and "holder \<noteq> rid" for e holder grant_time
    using that by (simp add: locks)
  have returned: "ws = waiting_queues tm v"
    unfolding ws by (simp add: release_path_def Let_def split: option.splits)
  have cleared: "get_waiting_robots tm' v = []"
    unfolding tm'
    by (simp add: release_path_def get_waiting_robots_def Let_def split: option.splits)
  have rest: "waiting_queues tm' u = waiting_queues tm u" if "u \<noteq> v" for u
    unfolding tm' using that by (simp add: release_path_def Let_def split: option.splits)
  show ?thesis
    using removed locks others returned cleared rest by blast
qed

lemma tm_with_waiter_eq:
  "tm_with_waiter = \<lparr>vertex_locks = [1 \<mapsto> (7, 0), 2 \<mapsto> (8, 0)],
      edge_locks = [(1, 10) \<mapsto> (7, 0), (2, 20) \<mapsto> (8, 0)],
      waiting_queues = [2 \<mapsto> [9]], lock_duration = 5\<rparr>"
  by (simp add: tm_with_waiter_def tm_two_holders_eq request_path_def lock_blocks_def
      add_waiting_def)

theorem release_postcondition_witness:
  "snd (release_path tm_with_waiter 8 2) = Some [9] \<and>
   vertex_locks (fst (release_path tm_with_waiter 8 2)) 2 = None \<and>
   edge_locks (fst (release_path tm_with_waiter 8 2)) (2, 20) = None \<and>
   vertex_locks (fst (release_path tm_with_waiter 8 2)) 1 = Some (7, 0) \<and>
   edge_locks (fst (release_path tm_with_waiter 8 2)) (1, 10) = Some (7, 0) \<and>
   get_waiting_robots (fst (release_path tm_with_waiter 8 2)) 2 = []"
proof -
  have v2: "lock_of tm_with_waiter (Vertex 2) = Some (8, 0)"
    and e2: "lock_of tm_with_waiter (Edge 2 20) = Some (8, 0)"
    and v1: "lock_of tm_with_waiter (Vertex 1) = Some (7, 0)"
    and e1: "lock_of tm_with_waiter (Edge 1 10) = Some (7, 0)"
    and q: "waiting_queues tm_with_waiter 2 = Some [9]"
    by (simp_all add: tm_with_waiter_eq)
  have p: "release_path tm_with_waiter 8 2 =
      (fst (release_path tm_with_waiter 8 2), snd (release_path tm_with_waiter 8 2))"
    by simp
  note post = release_postcondition [OF p]
  from post have a: "\<forall>e. lock_of (fst (release_path tm_with_waiter 8 2)) e =
            (case lock_of tm_with_waiter e of
               None \<Rightarrow> None
             | Some (holder, grant_time) \<Rightarrow>
                 if holder = 8 \<and> (e = Vertex 2 \<or> (\<exists>a b. e = Edge a b)) then None
                 else Some (holder, grant_time))"
    by blast
  from post have b: "snd (release_path tm_with_waiter 8 2) = waiting_queues tm_with_waiter 2"
    and c: "get_waiting_robots (fst (release_path tm_with_waiter 8 2)) 2 = []"
    by blast+
  from a [rule_format, of "Vertex 2"] a [rule_format, of "Edge 2 20"]
    a [rule_format, of "Vertex 1"] a [rule_format, of "Edge 1 10"] b c v1 v2 e1 e2 q
  show ?thesis by simp
qed

text \<open>
  Claim C8 says that a request crossing an element with an unexpired reservation of
  another robot \<open>h\<close> is denied with blocking id \<open>h\<close>. Vertex 2 is held by robot 8, the
  lease is one time unit old, robot 9 asks for the path 1, 2, 3: the request is denied,
  with blocking id 7, the holder of vertex 1, where the scan stopped.
\<close>

theorem blocking_id_counterexample:
  "lock_of tm_two_holders (Vertex 2) = Some (8, 0) \<and>
   Vertex 2 \<in> set (path_elements [1, 2, 3]) \<and>
   (8::int) \<noteq> 9 \<and> (1::real) - 0 < 5 \<and>
   snd (request_path tm_two_holders 9 1 [1, 2, 3]) = (False, Some 7) \<and>
   snd (request_path tm_two_holders 9 1 [1, 2, 3]) \<noteq> (False, Some 8)"
  by (simp add: tm_two_holders_eq request_path_def lock_blocks_def)

text \<open>
  Claim C8, amended. Let element \<open>e\<close> of the path \<open>p\<close> carry \<open>(h, t0)\<close> with \<open>h\<close> another robot,
  the duration being 5. If \<open>t - t0 < 5\<close> the request at \<open>t\<close> is denied, and the blocking
  id is the holder of the first live element in scan order; it is \<open>h\<close> when that element
  is \<open>e\<close>. If \<open>t - t0 \<ge> 5\<close> the entry does not block: when no other element of the path
  is live the request is granted and \<open>e\<close> is stamped anew. A request deletes no entry,
  and leaves every entry off the path as it is, expired or not.
\<close>

theorem lease_expiry_boundary:
  assumes "lock_duration tm = 5" and "lock_of tm e = Some (h, t0)" and "h \<noteq> rid"
    and "e \<in> set (path_elements p)"
  shows "(t - t0 < 5 \<longrightarrow>
            (\<exists>e' h' t'. find (live_for tm rid t) (path_elements p) = Some e' \<and>
                lock_of tm e' = Some (h', t') \<and>
                snd (request_path tm rid t p) = (False, Some h'))) \<and>
         (t - t0 < 5 \<and> find (live_for tm rid t) (path_elements p) = Some e \<longrightarrow>
            snd (request_path tm rid t p) = (False, Some h)) \<and>
         (t - t0 \<ge> 5 \<longrightarrow> \<not> live_for tm rid t e) \<and>
         (t - t0 \<ge> 5 \<and> (\<forall>e' \<in> set (path_elements p). e' \<noteq> e \<longrightarrow> \<not> live_for tm rid t e') \<longrightarrow>
            snd (request_path tm rid t p) = (True, None) \<and>
            lock_of (fst (request_path tm rid t p)) e = Some (rid, t)) \<and>
         (\<forall>x. lock_of tm x \<noteq> None \<longrightarrow> lock_of (fst (request_path tm rid t p)) x \<noteq> None) \<and>
         (\<forall>x. x \<notin> set (path_elements p) \<longrightarrow>
            lock_of (fst (request_path tm rid t p)) x = lock_of tm x)"
proof -
  have live_iff: "live_for tm rid t e \<longleftrightarrow> t - t0 < 5"
    using assms(1-3) by (simp add: live_for_def)
  have denied: "\<exists>e' h' t'. find (live_for tm rid t) (path_elements p) = Some e' \<and>
                lock_of tm e' = Some (h', t') \<and>
                snd (request_path tm rid t p) = (False, Some h')" if "t - t0 < 5"
  proof -
    from that live_iff assms(4)
    obtain e' where f: "find (live_for tm rid t) (path_elements p) = Some e'"
      by (cases "find (live_for tm rid t) (path_elements p)") (auto simp: find_None_iff)
    then have "live_for tm rid t e'" by (auto simp: find_Some_iff)
    then obtain h' t' where "lock_of tm e' = Some (h', t')"
      by (auto simp: live_for_def split: option.splits)
    with f show ?thesis by (simp add: request_path_cases)
  qed
  have first: "snd (request_path tm rid t p) = (False, Some h)"
    if "find (live_for tm rid t) (path_elements p) = Some e"
    using that assms(2) by (simp add: request_path_cases)
  have granted: "snd (request_path tm rid t p) = (True, None) \<and>
            lock_of (fst (request_path tm rid t p)) e = Some (rid, t)"
    if "t - t0 \<ge> 5" and "\<forall>e' \<in> set (path_elements p). e' \<noteq> e \<longrightarrow> \<not> live_for tm rid t e'"
  proof -
    from that live_iff have "\<forall>e' \<in> set (path_elements p). \<not> live_for tm rid t e'"
      by auto
    then have "find (live_for tm rid t) (path_elements p) = None"
      by (simp add: find_None_iff)
    then show ?thesis using assms(4)
      by (simp add: request_path_cases make_reservations_lock_of)
  qed
  have kept: "lock_of (fst (request_path tm rid t p)) x \<noteq> None" if "lock_of tm x \<noteq> None" for x
    using that by (simp add: request_path_cases make_reservations_lock_of split: option.splits)
  have off_path: "lock_of (fst (request_path tm rid t p)) x = lock_of tm x"
    if "x \<notin> set (path_elements p)" for x
    using that by (simp add: request_path_cases make_reservations_lock_of split: option.splits)
  show ?thesis
    using live_iff denied first granted kept off_path by auto
qed

theorem lease_expiry_boundary_witness:
  "snd (request_path tm_two_holders 9 1 [3, 2, 4]) = (False, Some 8) \<and>
   snd (request_path tm_two_holders 9 5 [3, 2, 4]) = (True, None) \<and>
   lock_of (fst (request_path tm_two_holders 9 5 [3, 2, 4])) (Vertex 2) = Some (9, 5) \<and>
   lock_of (fst (request_path tm_two_holders 9 5 [3, 2, 4])) (Vertex 1) = Some (7, 0)"
proof -
  have d: "lock_duration tm_two_holders = 5"
    and l: "lock_of tm_two_holders (Vertex 2) = Some (8, 0)"
    and l1: "lock_of tm_two_holders (Vertex 1) = Some (7, 0)"
    and n: "(8::int) \<noteq> 9"
    and m: "Vertex 2 \<in> set (path_elements [3, 2, 4])"
    and o: "Vertex 1 \<notin> set (path_elements [3, 2, 4])"
    by (simp_all add: tm_two_holders_eq)
  have f: "find (live_for tm_two_holders 9 1) (path_elements [3, 2, 4]) = Some (Vertex 2)"
    by (simp add: tm_two_holders_eq live_for_def)
  have s: "\<forall>e' \<in> set (path_elements [3, 2, 4]). e' \<noteq> Vertex 2 \<longrightarrow> \<not> live_for tm_two_holders 9 5 e'"
    by (simp add: tm_two_holders_eq live_for_def)
  from lease_expiry_boundary [OF d l n m, of 1] f
  have one: "snd (request_path tm_two_holders 9 1 [3, 2, 4]) = (False, Some 8)"
    by simp
  from lease_expiry_boundary [OF d l n m, of 5] s
  have two: "snd (request_path tm_two_holders 9 5 [3, 2, 4]) = (True, None) \<and>
     lock_of (fst (request_path tm_two_holders 9 5 [3, 2, 4])) (Vertex 2) = Some (9, 5)"
    by simp
  from lease_expiry_boundary [OF d l n m, of 5]
  have "\<forall>x. x \<notin> set (path_elements [3, 2, 4]) \<longrightarrow>
      lock_of (fst (request_path tm_two_holders 9 5 [3, 2, 4])) x = lock_of tm_two_holders x"
    by blast
  with o l1
  have three: "lock_of (fst (request_path tm_two_holders 9 5 [3, 2, 4])) (Vertex 1) = Some (7, 0)"
    by metis
  from one two three show ?thesis by simp
qed

section \<open>Properties of the robot and of the fleet manager\<close>

text \<open>
  Claim C6 says that every operation preserves the invariant as the specification words
  it. A freshly spawned robot satisfies it; blocked (as \<^verbatim>\<open>assign_task\<close> does on a denied
  request) it has status BLOCKED and no target. A robot started on the path 1 satisfies
  it; after one \<^verbatim>\<open>update_position\<close> its task is complete, and it still has its path and
  its target.
\<close>

theorem agent_invariant_counterexample:
  "claimed_invariant (Robot_init 1 1) \<and>
   \<not> claimed_invariant (set_blocked (Robot_init 1 1) (Some 2)) \<and>
   claimed_invariant (start_task (Robot_init 1 1) 1 [1] (0, 0)) \<and>
   update_position (start_task (Robot_init 1 1) 1 [1] (0, 0)) (1 / 10) (\<lambda>v. (0, 0)) =
     Inr ((start_task (Robot_init 1 1) 1 [1] (0, 0))\<lparr>status := TASK_COMPLETE\<rparr>) \<and>
   \<not> claimed_invariant ((start_task (Robot_init 1 1) 1 [1] (0, 0))\<lparr>status := TASK_COMPLETE\<rparr>)"
  by (simp add: claimed_invariant_def Robot_init_def set_blocked_def start_task_def
      update_position_def Let_def)

lemma update_position_invariant:
  assumes "robot_invariant r" and "update_position r d gp = Inr r'"
  shows "robot_invariant r'"
proof (cases "status r \<noteq> MOVING \<or> path r = []")
  case True
  with assms show ?thesis by (simp add: update_position_def)
next
  case False
  then have m: "status r = MOVING" "path r \<noteq> []" by simp_all
  show ?thesis
  proof (cases "current_edge_index r \<ge> length (path r) - 1")
    case True
    with assms m show ?thesis
      by (auto simp: update_position_def robot_invariant_def Let_def split: option.splits)
  next
    case False
    with assms m show ?thesis
      by (auto simp: update_position_def robot_invariant_def Let_def split: if_splits)
  qed
qed

text \<open>
  Claim C6, amended. In every reachable state of a robot: if it is moving, its path is
  non-empty, its cursor is a valid index of the path and its target is set; if its task
  is complete, its path is non-empty and its target is set; if it is idle, its path is
  empty and its target is unset.
\<close>

theorem agent_invariant:
  assumes "reachable_robot gp r"
  shows "robot_invariant r"
  using assms
proof (induction rule: reachable_robot.induct)
  case (spawn rid v x y)
  show ?case by (simp add: robot_invariant_def Robot_init_def)
next
  case (start r p target start_pos)
  then show ?case by (simp add: robot_invariant_def start_task_def Let_def)
next
  case (update r delta_time r')
  then show ?case by (simp add: update_position_invariant)
next
  case (blocked r b)
  then show ?case by (simp add: robot_invariant_def set_blocked_def)
next
  case (cancel r)
  then show ?case by (simp add: robot_invariant_def cancel_reset_def)
next
  case (retry r t)
  then show ?case by (simp add: robot_invariant_def)
qed

theorem agent_invariant_witness:
  "reachable_robot (\<lambda>v. (of_int v, 0)) robot_on_edge \<and>
   status robot_on_edge = MOVING \<and> path robot_on_edge = [1, 2] \<and>
   current_edge_index robot_on_edge = 0 \<and> target_vertex robot_on_edge = Some 2 \<and>
   robot_invariant robot_on_edge"
proof -
  have r: "reachable_robot (\<lambda>v. (of_int v, 0)) robot_on_edge"
    unfolding robot_on_edge_def
    by (rule reachable_robot.start [OF reachable_robot.spawn]) simp
  from agent_invariant [OF r] r show ?thesis
    by (simp add: robot_on_edge_def start_task_def Robot_init_def)
qed

lemma update_positions_complete:
  "status r = TASK_COMPLETE \<Longrightarrow> update_positions r ds gp = Inr r"
  by (induction ds) (simp_all add: update_position_def)

lemma update_position_last:
  assumes "status r = MOVING" "path r \<noteq> []" "target_vertex r = Some tgt"
    "current_edge_index r \<ge> length (path r) - 1"
  shows "\<exists>r'. update_position r d gp = Inr r' \<and> arrived gp r r'"
  using assms by (simp add: update_position_def arrived_def Let_def)

lemma update_position_edge_done:
  assumes "status r = MOVING" "path r \<noteq> []"
    "\<not> current_edge_index r \<ge> length (path r) - 1"
    "move_progress r + move_speed r * d \<ge> 1"
  shows "\<exists>r'. update_position r d gp = Inr r' \<and> status r' = MOVING \<and> path r' = path r \<and>
           target_vertex r' = target_vertex r \<and> move_speed r' = move_speed r \<and>
           current_edge_index r' = current_edge_index r + 1 \<and> move_progress r' = 0"
  using assms by (simp add: update_position_def Let_def)

lemma update_position_edge_on:
  assumes "status r = MOVING" "path r \<noteq> []"
    "\<not> current_edge_index r \<ge> length (path r) - 1"
    "\<not> move_progress r + move_speed r * d \<ge> 1"
  shows "\<exists>r'. update_position r d gp = Inr r' \<and> status r' = MOVING \<and> path r' = path r \<and>
           target_vertex r' = target_vertex r \<and> move_speed r' = move_speed r \<and>
           current_edge_index r' = current_edge_index r \<and>
           move_progress r' = move_progress r + move_speed r * d"
  using assms by (simp add: update_position_def Let_def)

lemma arrives_within:
  assumes c: "0 < move_speed r" "0 < dmin" and M: "1 \<le> M" "1 \<le> real M * (move_speed r * dmin)"
  shows "status r = MOVING \<Longrightarrow> path r \<noteq> [] \<Longrightarrow> target_vertex r = Some tgt \<Longrightarrow>
         steps_enough (move_speed r * dmin) M r n \<Longrightarrow> n \<le> length ds \<Longrightarrow>
         \<forall>d \<in> set ds. dmin \<le> d \<Longrightarrow>
         \<exists>r'. update_positions r ds gp = Inr r' \<and> arrived gp r r'"
  using c M
proof (induction n arbitrary: r ds)
  case 0
  then show ?case by (auto simp: steps_enough_def split: if_splits)
next
  case (Suc n)
  from Suc.prems(5) obtain d ds' where ds: "ds = d # ds'" and len: "n \<le> length ds'"
    by (cases ds) auto
  from Suc.prems(6) ds have d: "dmin \<le> d" and rest: "\<forall>d \<in> set ds'. dmin \<le> d"
    by simp_all
  let ?c = "move_speed r * dmin"
  have cpos: "0 < ?c" using Suc.prems(7,8) by simp
  have sd: "?c \<le> move_speed r * d" using d Suc.prems(7) by simp
  show ?case
  proof (cases "current_edge_index r \<ge> length (path r) - 1")
    case True
    from update_position_last [OF Suc.prems(1-3) True, of d gp]
    obtain r' where r': "update_position r d gp = Inr r'" "arrived gp r r'" by blast
    then have "status r' = TASK_COMPLETE" by (simp add: arrived_def)
    then have "update_positions r' ds' gp = Inr r'" by (rule update_positions_complete)
    with r' ds show ?thesis by simp
  next
    case notlast: False
    from Suc.prems(4) notlast obtain m where m: "1 \<le> m" "1 - move_progress r \<le> real m * ?c"
      "m + (length (path r) - 2 - current_edge_index r) * M + 1 \<le> Suc n"
      by (auto simp: steps_enough_def)
    show ?thesis
    proof (cases "move_progress r + move_speed r * d \<ge> 1")
      case True
      from update_position_edge_done [OF Suc.prems(1,2) notlast True, of gp]
      obtain r' where r': "update_position r d gp = Inr r'" "status r' = MOVING"
        "path r' = path r" "target_vertex r' = target_vertex r" "move_speed r' = move_speed r"
        "current_edge_index r' = current_edge_index r + 1" "move_progress r' = 0"
        by blast
      have enough: "steps_enough (move_speed r' * dmin) M r' n"
      proof (cases "current_edge_index r' \<ge> length (path r') - 1")
        case True
        with m show ?thesis by (simp add: steps_enough_def)
      next
        case False
        then have eq: "length (path r) - 2 - current_edge_index r =
            Suc (length (path r') - 2 - current_edge_index r')"
          using r'(3,6) by simp
        have "1 \<le> M \<and> 1 - move_progress r' \<le> real M * (move_speed r' * dmin) \<and>
            M + (length (path r') - 2 - current_edge_index r') * M + 1 \<le> n"
          using m Suc.prems(9,10) r'(5,7) eq by simp
        with False show ?thesis unfolding steps_enough_def by auto
      qed
      have p': "path r' \<noteq> []" and t': "target_vertex r' = Some tgt"
        and s': "0 < move_speed r'" and M': "1 \<le> real M * (move_speed r' * dmin)"
        using r'(3,4,5) Suc.prems(2,3,7,10) by simp_all
      from Suc.IH [OF r'(2) p' t' enough len rest s' Suc.prems(8,9) M']
      obtain r'' where r'': "update_positions r' ds' gp = Inr r''" "arrived gp r' r''"
        by auto
      with r'(1,4) ds show ?thesis by (simp add: arrived_def)
    next
      case False
      from update_position_edge_on [OF Suc.prems(1,2) notlast False, of gp]
      obtain r' where r': "update_position r d gp = Inr r'" "status r' = MOVING"
        "path r' = path r" "target_vertex r' = target_vertex r" "move_speed r' = move_speed r"
        "current_edge_index r' = current_edge_index r"
        "move_progress r' = move_progress r + move_speed r * d"
        by blast
      have le: "1 - move_progress r' \<le> real m * ?c - ?c"
        using m(2) sd r'(7) by simp
      have pos: "0 < 1 - move_progress r'" using False r'(7) by simp
      have "0 < real m * ?c - ?c" using le pos by simp
      then have lt: "?c < real m * ?c" by simp
      have "(1 * ?c < real m * ?c) = (1 < real m)"
        by (rule mult_less_cancel_right_pos [OF cpos])
      with lt have "1 < real m" by simp
      then have m2: "2 \<le> m" by simp
      then have "real (m - 1) * ?c = real m * ?c - ?c"
        by (simp add: algebra_simps of_nat_diff)
      with le have le': "1 - move_progress r' \<le> real (m - 1) * (move_speed r' * dmin)"
        using r'(5) by simp
      have "1 \<le> m - 1 \<and> 1 - move_progress r' \<le> real (m - 1) * (move_speed r' * dmin) \<and>
          (m - 1) + (length (path r') - 2 - current_edge_index r') * M + 1 \<le> n"
        using m2 le' m(3) r'(3,6) by simp
      then have enough: "steps_enough (move_speed r' * dmin) M r' n"
        using notlast r'(3,6) unfolding steps_enough_def by auto
      have p': "path r' \<noteq> []" and t': "target_vertex r' = Some tgt"
        and s': "0 < move_speed r'" and M': "1 \<le> real M * (move_speed r' * dmin)"
        using r'(3,4,5) Suc.prems(2,3,7,10) by simp_all
      from Suc.IH [OF r'(2) p' t' enough len rest s' Suc.prems(8,9) M']
      obtain r'' where r'': "update_positions r' ds' gp = Inr r''" "arrived gp r' r''"
        by auto
      with r'(1,4) ds show ?thesis by (simp add: arrived_def)
    qed
  qed
qed

text \<open>
  Claim C7. A moving robot with a non-empty path, a target and a positive speed arrives
  after finitely many calls of \<^verbatim>\<open>update_position\<close>: for a positive lower bound \<open>dmin\<close>
  on the time steps (a constant step is the special case) there is a number \<open>N\<close> such
  that after any \<open>N\<close> or more calls the status is TASK_COMPLETE, the current vertex is
  the target and the position is exactly the position of the target vertex.
\<close>

theorem progress_termination:
  assumes "status r = MOVING" and "path r \<noteq> []" and "target_vertex r = Some tgt"
    and "0 < move_speed r" and "0 < dmin"
  shows "\<exists>N. \<forall>ds. N \<le> length ds \<and> (\<forall>d \<in> set ds. dmin \<le> d) \<longrightarrow>
           (\<exists>r'. update_positions r ds gp = Inr r' \<and> status r' = TASK_COMPLETE \<and>
                 current_vertex r' = tgt \<and> (current_x r', current_y r') = gp tgt)"
proof -
  let ?c = "move_speed r * dmin"
  have cpos: "0 < ?c" using assms(4,5) by simp
  from ex_less_of_nat_mult [OF cpos, of 1] obtain M0 :: nat where M0: "1 < real M0 * ?c"
    by auto
  from ex_less_of_nat_mult [OF cpos, of "1 - move_progress r"]
  obtain m0 :: nat where m0: "1 - move_progress r < real m0 * ?c"
    by auto
  define M where "M = max 1 M0"
  define m where "m = max 1 m0"
  have "real M0 \<le> real M" unfolding M_def by simp
  then have "real M0 * ?c \<le> real M * ?c" using cpos by (intro mult_right_mono) simp_all
  with M0 have M: "1 \<le> M" "1 \<le> real M * ?c" by (simp_all add: M_def)
  have "real m0 \<le> real m" unfolding m_def by simp
  then have "real m0 * ?c \<le> real m * ?c" using cpos by (intro mult_right_mono) simp_all
  with m0 have m: "1 \<le> m" "1 - move_progress r \<le> real m * ?c" by (simp_all add: m_def)
  define N where "N = m + length (path r) * M + 1"
  have "(length (path r) - 2 - current_edge_index r) * M \<le> length (path r) * M"
    by simp
  then have enough: "steps_enough ?c M r N"
    unfolding steps_enough_def N_def using m by auto
  have "\<exists>r'. update_positions r ds gp = Inr r' \<and> status r' = TASK_COMPLETE \<and>
                 current_vertex r' = tgt \<and> (current_x r', current_y r') = gp tgt"
    if "N \<le> length ds" and "\<forall>d \<in> set ds. dmin \<le> d" for ds
  proof -
    from arrives_within [OF assms(4,5) M assms(1-3) enough that]
    obtain r' where "update_positions r ds gp = Inr r'" "arrived gp r r'" by blast
    then show ?thesis using assms(3) by (auto simp: arrived_def)
  qed
  then show ?thesis by blast
qed

theorem progress_termination_witness:
  "\<exists>N r'. update_positions robot_on_edge (replicate N (1 / 10)) (\<lambda>v. (of_int v, 0)) = Inr r' \<and>
      status r' = TASK_COMPLETE \<and> current_vertex r' = 2 \<and> current_x r' = 2 \<and> current_y r' = 0"
proof -
  have h: "status robot_on_edge = MOVING" "path robot_on_edge \<noteq> []"
    "target_vertex robot_on_edge = Some 2" "0 < move_speed robot_on_edge" "(0::real) < 1 / 10"
    by (simp_all add: robot_on_edge_def start_task_def Robot_init_def)
  from progress_termination [OF h, of "\<lambda>v. (of_int v, 0)"]
  obtain N where N: "\<forall>ds. N \<le> length ds \<and> (\<forall>d \<in> set ds. (1 / 10 :: real) \<le> d) \<longrightarrow>
           (\<exists>r'. update_positions robot_on_edge ds (\<lambda>v. (of_int v, 0)) = Inr r' \<and>
                 status r' = TASK_COMPLETE \<and> current_vertex r' = 2 \<and>
                 (current_x r', current_y r') = (of_int 2, 0))"
    by blast
  have "N \<le> length (replicate N (1 / 10 :: real)) \<and>
      (\<forall>d \<in> set (replicate N (1 / 10 :: real)). 1 / 10 \<le> d)"
    by simp
  with N obtain r' where
    "update_positions robot_on_edge (replicate N (1 / 10)) (\<lambda>v. (of_int v, 0)) = Inr r'"
    "status r' = TASK_COMPLETE" "current_vertex r' = 2"
    "(current_x r', current_y r') = (of_int 2, 0)"
    by blast
  then show ?thesis by auto
qed

lemma fleet_two_spawned_eq:
  "fleet_two_spawned =
     \<lparr>nav_graph = line_graph,
      robots = [(1, Robot_init 1 1), (2, Robot_init 2 1)],
      traffic_manager = TrafficManager_init, next_robot_id = 3, last_update = None\<rparr>"
  by (simp add: fleet_two_spawned_def spawn_robot_def FleetManager_init_def line_graph_def
      Robot_init_def Let_def)

lemma fleet_one_moving_eq:
  "fleet_one_moving =
     \<lparr>nav_graph = line_graph,
      robots = [(1, start_task (Robot_init 1 1) 2 [1, 2] (0, 0)), (2, Robot_init 2 1)],
      traffic_manager = make_reservations TrafficManager_init 1 0 [1, 2],
      next_robot_id = 3, last_update = None\<rparr>"
  by (simp add: fleet_one_moving_def fleet_two_spawned_eq assign_task_def line_graph_def
      Robot_init_def request_path_def TrafficManager_init_def lock_blocks_def Let_def)

lemma fleet_one_blocked_eq:
  "fleet_one_blocked =
     \<lparr>nav_graph = line_graph,
      robots = [(1, start_task (Robot_init 1 1) 2 [1, 2] (0, 0)),
                (2, set_blocked (Robot_init 2 1) (Some 1))],
      traffic_manager = add_waiting (make_reservations TrafficManager_init 1 0 [1, 2]) 1 2,
      next_robot_id = 3, last_update = None\<rparr>"
  by (simp add: fleet_one_blocked_def fleet_one_moving_eq assign_task_def line_graph_def
      Robot_init_def request_path_def TrafficManager_init_def lock_blocks_def Let_def)

text \<open>
  Claim C4. For a moving robot \<^verbatim>\<open>cancel_task\<close> ends in the \<^verbatim>\<open>TypeError\<close> of its call of
  \<^verbatim>\<open>release_path\<close>, with nothing released and the robot still moving; for a blocked or an
  unknown robot it returns \<^verbatim>\<open>False\<close> and changes nothing.
\<close>

theorem cancel_raises:
  "map_option status (map_of (robots fleet_one_moving) 1) = Some MOVING \<and>
   cancel_task fleet_one_moving 1 = Inl (TypeError, fleet_one_moving) \<and>
   map_option status (map_of (robots fleet_one_blocked) 2) = Some BLOCKED \<and>
   cancel_task fleet_one_blocked 2 = Inr (fleet_one_blocked, False) \<and>
   cancel_task fleet_one_blocked 5 = Inr (fleet_one_blocked, False)"
  by (simp add: fleet_one_moving_eq fleet_one_blocked_eq cancel_task_def
      release_path_without_vertex_def start_task_def set_blocked_def Robot_init_def Let_def)








text \<open>
  Claim C9. \<^verbatim>\<open>assign_task\<close> returns \<^verbatim>\<open>False\<close> and the unchanged fleet when the robot is
  unknown, when its status is neither IDLE nor TASK_COMPLETE, or when there is no path.
  When the request is denied it returns \<^verbatim>\<open>False\<close>, the robot becomes BLOCKED with
  \<^verbatim>\<open>blocked_by\<close> the holder the traffic manager named. And only then: whenever the call
  changes the robot into a blocked one, a path existed and the request for it was denied
  with the holder now in \<^verbatim>\<open>blocked_by\<close>.
\<close>

theorem assign_failure_semantics:
  "(map_of (robots fm) rid = None \<longrightarrow> assign_task fm rid target t = (fm, False)) \<and>
   (\<forall>r. map_of (robots fm) rid = Some r \<and> status r \<noteq> IDLE \<and> status r \<noteq> TASK_COMPLETE
      \<longrightarrow> assign_task fm rid target t = (fm, False)) \<and>
   (\<forall>r. map_of (robots fm) rid = Some r \<and>
        no_path (get_shortest_path (nav_graph fm) (current_vertex r) target)
      \<longrightarrow> assign_task fm rid target t = (fm, False)) \<and>
   (\<forall>r p tm' h. map_of (robots fm) rid = Some r \<and>
        (status r = IDLE \<or> status r = TASK_COMPLETE) \<and>
        get_shortest_path (nav_graph fm) (current_vertex r) target = Some p \<and> p \<noteq> [] \<and>
        request_path (traffic_manager fm) rid t p = (tm', False, h)
      \<longrightarrow> assign_task fm rid target t =
            (fm\<lparr>traffic_manager := tm',
                robots := AList.update rid (r\<lparr>status := BLOCKED, blocked_by := h\<rparr>) (robots fm)\<rparr>,
             False) \<and>
          (\<exists>holder. h = Some holder)) \<and>
   (\<forall>r r'. map_of (robots fm) rid = Some r \<and>
        map_of (robots (fst (assign_task fm rid target t))) rid = Some r' \<and>
        status r' = BLOCKED \<and> r' \<noteq> r
      \<longrightarrow> (\<exists>p holder. get_shortest_path (nav_graph fm) (current_vertex r) target = Some p \<and>
            snd (request_path (traffic_manager fm) rid t p) = (False, Some holder) \<and>
            blocked_by r' = Some holder \<and> \<not> snd (assign_task fm rid target t)))"
proof -
  have denied_holder: "\<exists>holder. h = Some holder"
    if "request_path tm rid t p = (tm', False, h)" for tm p tm' h
    using that by (auto simp: request_path_def split: option.splits)
  have unknown: "assign_task fm rid target t = (fm, False)" if "map_of (robots fm) rid = None"
    using that by (simp add: assign_task_def)
  have ineligible: "assign_task fm rid target t = (fm, False)"
    if "map_of (robots fm) rid = Some r" "status r \<noteq> IDLE" "status r \<noteq> TASK_COMPLETE" for r
    using that by (simp add: assign_task_def)
  have nopath: "assign_task fm rid target t = (fm, False)"
    if "map_of (robots fm) rid = Some r"
      "no_path (get_shortest_path (nav_graph fm) (current_vertex r) target)" for r
    using that by (simp add: assign_task_def no_path_def split: option.splits)
  have contention: "assign_task fm rid target t =
            (fm\<lparr>traffic_manager := tm',
                robots := AList.update rid (r\<lparr>status := BLOCKED, blocked_by := h\<rparr>) (robots fm)\<rparr>,
             False)"
    if "map_of (robots fm) rid = Some r" "status r = IDLE \<or> status r = TASK_COMPLETE"
      "get_shortest_path (nav_graph fm) (current_vertex r) target = Some p" "p \<noteq> []"
      "request_path (traffic_manager fm) rid t p = (tm', False, h)" for r p tm' h
    using that by (auto simp: assign_task_def set_blocked_def)
  have only: "\<exists>p holder. get_shortest_path (nav_graph fm) (current_vertex r) target = Some p \<and>
            snd (request_path (traffic_manager fm) rid t p) = (False, Some holder) \<and>
            blocked_by r' = Some holder \<and> \<not> snd (assign_task fm rid target t)"
    if r: "map_of (robots fm) rid = Some r"
      and r': "map_of (robots (fst (assign_task fm rid target t))) rid = Some r'"
      and b: "status r' = BLOCKED" and ne: "r' \<noteq> r" for r r'
  proof (cases "status r \<noteq> IDLE \<and> status r \<noteq> TASK_COMPLETE")
    case True
    with r r' ne show ?thesis by (simp add: assign_task_def)
  next
    case elig: False
    show ?thesis
    proof (cases "get_shortest_path (nav_graph fm) (current_vertex r) target")
      case None
      with r r' ne elig show ?thesis by (simp add: assign_task_def)
    next
      case (Some p)
      show ?thesis
      proof (cases "p = []")
        case True
        with Some r r' ne elig show ?thesis by (simp add: assign_task_def)
      next
        case False
        obtain tm' can h where rp: "request_path (traffic_manager fm) rid t p = (tm', can, h)"
          by (cases "request_path (traffic_manager fm) rid t p") auto
        show ?thesis
        proof (cases can)
          case True
          with rp Some False r r' b elig show ?thesis
            by (auto simp: assign_task_def start_task_def Let_def update_Some_unfold
                split: if_splits)
        next
          case nc: False
          with rp have "request_path (traffic_manager fm) rid t p = (tm', False, h)" by simp
          from denied_holder [OF this] obtain holder where h: "h = Some holder" by blast
          from nc rp Some False r r' elig show ?thesis
            by (auto simp: assign_task_def set_blocked_def h update_Some_unfold)
        qed
      qed
    qed
  qed
  show ?thesis
    using unknown ineligible nopath contention denied_holder only by blast
qed

theorem assign_failure_semantics_witness:
  "assign_task fleet_two_spawned 5 2 0 = (fleet_two_spawned, False) \<and>
   assign_task fleet_one_moving 1 3 1 = (fleet_one_moving, False) \<and>
   assign_task fleet_two_spawned 1 7 0 = (fleet_two_spawned, False) \<and>
   assign_task fleet_one_moving 2 2 1 = (fleet_one_blocked, False) \<and>
   map_option status (map_of (robots fleet_one_blocked) 2) = Some BLOCKED \<and>
   map_option blocked_by (map_of (robots fleet_one_blocked) 2) = Some (Some 1)"
proof -
  have a: "map_of (robots fleet_two_spawned) 5 = None"
    by (simp add: fleet_two_spawned_eq)
  have b: "map_of (robots fleet_one_moving) 1 = Some (start_task (Robot_init 1 1) 2 [1, 2] (0, 0))"
    "status (start_task (Robot_init 1 1) 2 [1, 2] (0, 0)) \<noteq> IDLE"
    "status (start_task (Robot_init 1 1) 2 [1, 2] (0, 0)) \<noteq> TASK_COMPLETE"
    by (simp_all add: fleet_one_moving_eq start_task_def)
  have c: "map_of (robots fleet_two_spawned) 1 = Some (Robot_init 1 1)"
    "no_path (get_shortest_path (nav_graph fleet_two_spawned) (current_vertex (Robot_init 1 1)) 7)"
    by (simp_all add: fleet_two_spawned_eq no_path_def line_graph_def Robot_init_def)
  have d: "map_of (robots fleet_one_moving) 2 = Some (Robot_init 2 1)"
    "status (Robot_init 2 1) = IDLE \<or> status (Robot_init 2 1) = TASK_COMPLETE"
    "get_shortest_path (nav_graph fleet_one_moving) (current_vertex (Robot_init 2 1)) 2 = Some [1, 2]"
    "[1, 2] \<noteq> ([]::vertex list)"
    "request_path (traffic_manager fleet_one_moving) 2 1 [1, 2] =
       (add_waiting (make_reservations TrafficManager_init 1 0 [1, 2]) 1 2, False, Some 1)"
    by (simp_all add: fleet_one_moving_eq line_graph_def Robot_init_def request_path_def
        TrafficManager_init_def lock_blocks_def)
  have e: "fleet_one_moving
       \<lparr>traffic_manager := add_waiting (make_reservations TrafficManager_init 1 0 [1, 2]) 1 2,
        robots := AList.update 2 ((Robot_init 2 1)\<lparr>status := BLOCKED, blocked_by := Some 1\<rparr>)
                    (robots fleet_one_moving)\<rparr> = fleet_one_blocked"
    by (simp add: fleet_one_moving_eq fleet_one_blocked_eq set_blocked_def)
  have f: "map_option status (map_of (robots fleet_one_blocked) 2) = Some BLOCKED"
    "map_option blocked_by (map_of (robots fleet_one_blocked) 2) = Some (Some 1)"
    by (simp_all add: fleet_one_blocked_eq set_blocked_def)
  from assign_failure_semantics [of fleet_two_spawned 5 2 0] a
  have one: "assign_task fleet_two_spawned 5 2 0 = (fleet_two_spawned, False)" by blast
  from assign_failure_semantics [of fleet_one_moving 1 3 1] b
  have two: "assign_task fleet_one_moving 1 3 1 = (fleet_one_moving, False)" by blast
  from assign_failure_semantics [of fleet_two_spawned 1 7 0] c
  have three: "assign_task fleet_two_spawned 1 7 0 = (fleet_two_spawned, False)" by blast
  from assign_failure_semantics [of fleet_one_moving 2 2 1] d
  have "assign_task fleet_one_moving 2 2 1 =
      (fleet_one_moving
       \<lparr>traffic_manager := add_waiting (make_reservations TrafficManager_init 1 0 [1, 2]) 1 2,
        robots := AList.update 2 ((Robot_init 2 1)\<lparr>status := BLOCKED, blocked_by := Some 1\<rparr>)
                    (robots fleet_one_moving)\<rparr>, False)"
    by blast
  with e have four: "assign_task fleet_one_moving 2 2 1 = (fleet_one_blocked, False)" by simp
  from one two three four f show ?thesis by simp
qed

end
